theory Spec2Isabelle
  imports Complex_Main "HOL-Library.Word" "HOL-Library.Mapping" "HOL-Library.RBT_Mapping"
begin

unbundle bit_operations_syntax

section \<open>The SPN cipher (src/src/spn.hpp, src/src/spn.cpp)\<close>

text \<open>
  All cipher values are \<^verbatim>\<open>uint16_t\<close>. C++ promotes them to \<^verbatim>\<open>int\<close> before
  shifting and truncates on assignment; every shifted operand below is at most 16 bits
  wide and is shifted by at most 12, so the promoted value fits in 32 bits and the
  truncation on assignment is exactly the 16-bit \<open>push_bit\<close>.
\<close>

type_synonym u16 = "16 word"

record SPN =
  m_SB :: "u16 list"
  m_iSB :: "u16 list"
  m_subkeys :: "u16 list"
  m_diff_table :: "u16 list list"
  m_transposed_diff_table :: "u16 list list"

definition Nr :: nat where
  "Nr = 4"

text \<open>The constructor \<^verbatim>\<open>SPN::SPN()\<close>: zero-filled vectors of fixed sizes.\<close>

definition SPN_new :: SPN where
  "SPN_new =
     \<lparr>m_SB = replicate 16 0, m_iSB = replicate 16 0, m_subkeys = replicate (Nr + 1) 0,
      m_diff_table = replicate 16 (replicate 16 0),
      m_transposed_diff_table = replicate 16 (replicate 16 0)\<rparr>"

text \<open>
  \<^verbatim>\<open>SPN::setSboxes\<close>. The argument is the list of the 16 values that the 16 calls of
  \<^verbatim>\<open>strtol\<close> yield, already cast to \<^verbatim>\<open>uint16_t\<close>. The second loop writes
  \<^verbatim>\<open>m_iSB[m_SB[i]] = i\<close>; for an entry above 15 the C++ write is out of range
  (undefined), so the theorems below are stated for S-boxes with entries below 16.
\<close>

definition setSboxes :: "u16 list \<Rightarrow> SPN \<Rightarrow> SPN" where
  "setSboxes sbox spn =
     (let spn = fold (\<lambda>i s. s\<lparr>m_SB := (m_SB s)[i := sbox ! i]\<rparr>) [0..<16] spn;
          spn = fold (\<lambda>i s. s\<lparr>m_iSB := (m_iSB s)[unat (m_SB s ! i) := of_nat i]\<rparr>) [0..<16] spn
      in spn)"

text \<open>\<^verbatim>\<open>SPN::subst\<close> and \<^verbatim>\<open>SPN::isubst\<close>: the S-box on each of the four nibbles.\<close>

definition subst :: "SPN \<Rightarrow> u16 \<Rightarrow> u16" where
  "subst spn x =
     (let y = m_SB spn ! unat (x AND 0xf);
          y = y XOR push_bit 4 (m_SB spn ! unat (drop_bit 4 x AND 0xf));
          y = y XOR push_bit 8 (m_SB spn ! unat (drop_bit 8 x AND 0xf));
          y = y XOR push_bit 12 (m_SB spn ! unat (drop_bit 12 x AND 0xf))
      in y)"

definition isubst :: "SPN \<Rightarrow> u16 \<Rightarrow> u16" where
  "isubst spn x =
     (let y = m_iSB spn ! unat (x AND 0xf);
          y = y XOR push_bit 4 (m_iSB spn ! unat (drop_bit 4 x AND 0xf));
          y = y XOR push_bit 8 (m_iSB spn ! unat (drop_bit 8 x AND 0xf));
          y = y XOR push_bit 12 (m_iSB spn ! unat (drop_bit 12 x AND 0xf))
      in y)"

text \<open>\<^verbatim>\<open>SPN::transp\<close> (the name \<open>transp\<close> is taken in HOL) and \<^verbatim>\<open>SPN::itransp\<close>.\<close>

definition transp_w :: "u16 \<Rightarrow> u16" where
  "transp_w x =
     (let y = 0;
          y = y XOR (x AND 0x8421);
          y = y XOR push_bit 3 (x AND 0x0842);
          y = y XOR push_bit 6 (x AND 0x0084);
          y = y XOR push_bit 9 (x AND 0x0008);
          y = y XOR drop_bit 9 (x AND 0x1000);
          y = y XOR drop_bit 6 (x AND 0x2100);
          y = y XOR drop_bit 3 (x AND 0x4210)
      in y)"

definition itransp :: "u16 \<Rightarrow> u16" where
  "itransp x = transp_w x"

text \<open>
  \<^verbatim>\<open>SPN::encrypt\<close>: the loop \<^verbatim>\<open>for (i = 1; i < Nr; i++)\<close> is a fold over \<open>[1..<Nr]\<close>.
\<close>

definition encrypt :: "SPN \<Rightarrow> u16 \<Rightarrow> u16" where
  "encrypt spn pt =
     (let x = pt XOR m_subkeys spn ! 0;
          x = fold (\<lambda>i x. let x = subst spn x; x = transp_w x in x XOR m_subkeys spn ! i)
                [1..<Nr] x;
          x = subst spn x;
          x = x XOR m_subkeys spn ! Nr
      in x)"

text \<open>
  \<^verbatim>\<open>SPN::decryptWithKeys\<close>: the loop \<^verbatim>\<open>for (i = Nr - 1; i >= 1; i--)\<close> is a fold over
  \<open>rev [1..<Nr]\<close>. \<^verbatim>\<open>SPN::decrypt\<close> is the same body on the member array.
\<close>

definition decryptWithKeys :: "SPN \<Rightarrow> u16 \<Rightarrow> u16 list \<Rightarrow> u16" where
  "decryptWithKeys spn ct subkeys =
     (let x = ct XOR subkeys ! Nr;
          x = isubst spn x;
          x = fold (\<lambda>i x. let x = x XOR subkeys ! i; x = itransp x in isubst spn x)
                (rev [1..<Nr]) x;
          x = x XOR subkeys ! 0
      in x)"

definition decrypt :: "SPN \<Rightarrow> u16 \<Rightarrow> u16" where
  "decrypt spn ct =
     (let x = ct XOR m_subkeys spn ! Nr;
          x = isubst spn x;
          x = fold (\<lambda>i x. let x = x XOR m_subkeys spn ! i; x = itransp x in isubst spn x)
                (rev [1..<Nr]) x;
          x = x XOR m_subkeys spn ! 0
      in x)"

text \<open>
  \<^verbatim>\<open>SPN::calculateDiffTable\<close>: two nested loops over \<open>x\<close> and \<open>dx\<close> in \<open>0..15\<close>, each step
  incrementing one cell of the table and one of the transposed table.
\<close>

definition inc_cell :: "u16 list list \<Rightarrow> nat \<Rightarrow> nat \<Rightarrow> u16 list list" where
  "inc_cell t a b = t[a := (t ! a)[b := t ! a ! b + 1]]"

definition diff_step :: "u16 \<Rightarrow> u16 \<Rightarrow> SPN \<Rightarrow> SPN" where
  "diff_step x dx spn =
     (let y = subst spn x;
          dy = y XOR subst spn (x XOR dx)
      in spn\<lparr>m_diff_table := inc_cell (m_diff_table spn) (unat dx) (unat dy),
              m_transposed_diff_table :=
                inc_cell (m_transposed_diff_table spn) (unat dy) (unat dx)\<rparr>)"

definition calculateDiffTable :: "SPN \<Rightarrow> SPN" where
  "calculateDiffTable spn =
     fold (\<lambda>x. fold (\<lambda>dx. diff_step (of_nat x) (of_nat dx)) [0..<16]) [0..<16] spn"

text \<open>
  The key schedule \<^verbatim>\<open>SPN::keysched\<close> parses five 4-digit hexadecimal groups into
  \<^verbatim>\<open>m_subkeys[0..Nr]\<close>; the parsing is input handling, the model takes the five
  parsed values.
\<close>

definition keysched :: "u16 list \<Rightarrow> SPN \<Rightarrow> SPN" where
  "keysched K spn = spn\<lparr>m_subkeys := K\<rparr>"

text \<open>The cipher object as Generator/main.cpp sets it up: key schedule, then S-boxes.\<close>

definition generator_spn :: "u16 list \<Rightarrow> u16 list \<Rightarrow> SPN" where
  "generator_spn sbox K = setSboxes sbox (keysched K SPN_new)"

text \<open>An S-box is valid when it is a permutation of \<open>0..15\<close>.\<close>

definition valid_sbox :: "u16 list \<Rightarrow> bool" where
  "valid_sbox sbox \<longleftrightarrow> length sbox = 16 \<and> distinct sbox \<and> (\<forall>v \<in> set sbox. v < 16)"

text \<open>S-box and inverse S-box relation needed by the round trip.\<close>

definition sbox_inverse :: "SPN \<Rightarrow> bool" where
  "sbox_inverse spn \<longleftrightarrow>
     (\<forall>n < 16. m_SB spn ! n < 16 \<and> m_iSB spn ! unat (m_SB spn ! n) = of_nat n)"

text \<open>
  The round structure as the specification writes it (section 4.1), with \<open>\<circ>\<close> the usual
  composition of functions: the rightmost function is applied first.
\<close>

definition encrypt_spec :: "SPN \<Rightarrow> u16 \<Rightarrow> u16" where
  "encrypt_spec spn =
     (let K = (\<lambda>i x. x XOR m_subkeys spn ! i); SB = subst spn; P = transp_w
      in SB \<circ> K 4 \<circ> (P \<circ> SB \<circ> K 3) \<circ> (P \<circ> SB \<circ> K 2) \<circ> (P \<circ> SB \<circ> K 1) \<circ> K 0)"

text \<open>The S-box and key of scenario S1 of the specification.\<close>

definition sbox_S1 :: "u16 list" where
  "sbox_S1 = [14, 4, 13, 1, 2, 15, 11, 8, 3, 10, 6, 12, 5, 9, 0, 7]"

definition key_S1 :: "u16 list" where
  "key_S1 = [0x0011, 0x2233, 0x4455, 0x6677, 0x8899]"

text \<open>
  The cipher object as KeyFinder/main.cpp sets it up: S-boxes, then the difference tables.
\<close>

definition keyfinder_spn :: "u16 list \<Rightarrow> SPN" where
  "keyfinder_spn sbox = calculateDiffTable (setSboxes sbox SPN_new)"

text \<open>
  Auxiliary notions for the difference table: a 16 by 16 table, the output difference of
  the S-box at \<open>x\<close> for input difference \<open>dx\<close>, and the list of cells that the two loops
  of \<^verbatim>\<open>calculateDiffTable\<close> increment, in order.
\<close>

definition rect16 :: "u16 list list \<Rightarrow> bool" where
  "rect16 t \<longleftrightarrow> length t = 16 \<and> (\<forall>i < 16. length (t ! i) = 16)"

definition dy_cell :: "u16 list \<Rightarrow> nat \<Rightarrow> nat \<Rightarrow> nat" where
  "dy_cell sb x dx = unat (sb ! x XOR sb ! (x XOR dx))"

definition cells :: "u16 list \<Rightarrow> nat list \<Rightarrow> nat list \<Rightarrow> (nat \<times> nat) list" where
  "cells sb xs ds = map (\<lambda>(x, dx). (dx, dy_cell sb x dx)) (List.product xs ds)"

section \<open>The key finder (src/KeyFinder/keyfinder.hpp, src/KeyFinder/keyfinder.cpp)\<close>

subsection \<open>Data\<close>

text \<open>
  A histogram \<^verbatim>\<open>std::map<uint16_t, size_t>\<close> is a finite map that is traversed in
  ascending key order; \<^verbatim>\<open>hist[k] += v\<close> creates a missing entry with value 0 first.
  Counts are bounded by the number of codebook entries times the number of paths and
  candidates, far below \<open>2^64\<close>, so \<^verbatim>\<open>size_t\<close> is modelled by \<open>nat\<close>.
\<close>

type_synonym hist = "(u16, nat) mapping"

definition hist_add :: "hist \<Rightarrow> u16 \<Rightarrow> nat \<Rightarrow> hist" where
  "hist_add h k v = Mapping.map_default k 0 (\<lambda>c. c + v) h"

text \<open>The traversal of a \<^verbatim>\<open>std::map\<close>: its entries in ascending key order.\<close>

definition map_entries :: "('k::linorder, 'v) mapping \<Rightarrow> ('k \<times> 'v) list" where
  "map_entries m = map (\<lambda>k. (k, the (Mapping.lookup m k))) (Mapping.ordered_keys m)"

text \<open>\<^verbatim>\<open>HistReturn\<close>: a key with its count.\<close>

type_synonym HistReturn = "u16 \<times> nat"

text \<open>
  \<^verbatim>\<open>Path\<close>. The probability is a \<^verbatim>\<open>double\<close> that starts at 1 and is multiplied by
  \<open>m / 16\<close> for table entries \<open>m\<close>, at most four times in each of at most three rounds.
  For a table computed by \<^verbatim>\<open>calculateDiffTable\<close> (entries at most 16) every such
  product is a multiple of \<open>2^-48\<close> below 1 and is represented exactly, so the arithmetic
  and the comparisons of the source are those of the rationals.
\<close>

record Path =
  input_diff :: u16
  output_diff :: u16
  probability :: rat

text \<open>
  \<^verbatim>\<open>SboxState\<close>: the bitset of active S-boxes, the nibble mask and the set of the
  per-nibble masks (the field \<^verbatim>\<open>mask\<close> is named \<open>mask_s\<close>, \<open>mask\<close> being taken in HOL).
\<close>

record SboxState =
  active :: "4 word"
  mask_s :: u16
  aux_masks :: "u16 set"

definition SboxState_new :: "u16 \<Rightarrow> SboxState" where
  "SboxState_new state =
     fold (\<lambda>i s. if bit (active s) i
                  then s\<lparr>mask_s := mask_s s OR push_bit (i * 4) 0xf,
                         aux_masks := insert (push_bit (i * 4) 0xf) (aux_masks s)\<rparr>
                  else s)
       (rev [0..<4]) \<lparr>active = ucast state, mask_s = 0, aux_masks = {}\<rparr>"

text \<open>\<^verbatim>\<open>std::bitset::count\<close>.\<close>

definition active_count :: "SboxState \<Rightarrow> nat" where
  "active_count s = length (filter (bit (active s)) [0..<4])"

text \<open>
  The object. \<^verbatim>\<open>m_spn\<close> is a reference to the cipher object of \<^verbatim>\<open>main\<close>; no function
  modelled here writes through it, so it is a field. The member \<^verbatim>\<open>m_subkeys\<close> of the
  key finder is named \<open>m_subkeys_kf\<close> (the cipher has a member of the same name).
  \<^verbatim>\<open>m_verbose\<close> is the verbosity level as a number.
\<close>

record KeyFinder =
  m_spn :: SPN
  m_pc1 :: "u16 list"
  m_pc1_forward :: "u16 list"
  m_subkeys_kf :: "u16 list"
  m_verbose :: nat
  m_compute_3_sboxes :: bool
  m_compute_4_sboxes :: bool
  m_num_of_threads :: nat

text \<open>
  The constructor, given the ciphertexts parsed from the lines of the file in order:
  \<^verbatim>\<open>m_pc1.push_back(ct); m_pc1_forward[ct] = pt++\<close> with a 16-bit counter \<open>pt\<close>.
\<close>

definition KeyFinder_new :: "u16 list \<Rightarrow> SPN \<Rightarrow> nat \<Rightarrow> bool \<Rightarrow> bool \<Rightarrow> KeyFinder" where
  "KeyFinder_new cts spn num_of_threads compute_3_sboxes compute_4_sboxes =
     \<lparr>m_spn = spn,
      m_pc1 = cts,
      m_pc1_forward =
        fold (\<lambda>(pt, ct) fw. fw[unat ct := of_nat pt]) (zip [0..<length cts] cts)
          (replicate 65536 0),
      m_subkeys_kf = replicate (Nr + 1) 0,
      m_verbose = 0,
      m_compute_3_sboxes = compute_3_sboxes,
      m_compute_4_sboxes = compute_4_sboxes,
      m_num_of_threads = num_of_threads\<rparr>"

definition setVerbose :: "nat \<Rightarrow> KeyFinder \<Rightarrow> KeyFinder" where
  "setVerbose level kf = kf\<lparr>m_verbose := level\<rparr>"

text \<open>
  What ends a run other than a return: \<^verbatim>\<open>exit(code)\<close>, and the exception that
  \<^verbatim>\<open>std::map::at\<close> throws for a missing key. There is no other error in the source.
\<close>

datatype failure = Exit nat | OutOfRange

definition bindE :: "failure + 'a \<Rightarrow> ('a \<Rightarrow> failure + 'b) \<Rightarrow> failure + 'b" where
  "bindE m f = (case m of Inl e \<Rightarrow> Inl e | Inr a \<Rightarrow> f a)"

text \<open>
  \<^verbatim>\<open>recoverRoundSubkey\<close> writes the line \<^verbatim>\<open>guessing key[round_num]..\<close> to the error
  stream on every call, whatever the verbosity. A run of the recovery functions is
  modelled with these lines in order, next to its outcome.
\<close>

datatype log_line = Guessing nat

type_synonym 'a run = "log_line list \<times> (failure + 'a)"

definition returnR :: "'a \<Rightarrow> 'a run" where
  "returnR a = ([], Inr a)"

definition bindR :: "'a run \<Rightarrow> ('a \<Rightarrow> 'b run) \<Rightarrow> 'b run" where
  "bindR m f =
     (case m of
        (l, Inl e) \<Rightarrow> (l, Inl e)
      | (l, Inr a) \<Rightarrow> (case f a of (l', r) \<Rightarrow> (l @ l', r)))"

subsection \<open>Nibble helpers (keyfinder.hpp)\<close>

definition MakeSbox :: "nat \<Rightarrow> u16 \<Rightarrow> u16" where
  "MakeSbox which x = push_bit ((3 - which) * 4) (x AND 0xf)"

definition SboxMask :: "nat \<Rightarrow> u16" where
  "SboxMask which = push_bit ((3 - which) * 4) 0xf"

definition SboxValue :: "nat \<Rightarrow> u16 \<Rightarrow> u16" where
  "SboxValue which x = drop_bit ((3 - which) * 4) x AND 0xf"

definition FindSbox :: "u16 \<Rightarrow> nat list" where
  "FindSbox x = filter (\<lambda>i. x AND push_bit ((3 - i) * 4) 0xf \<noteq> 0) [0..<4]"

definition SboxCount :: "u16 \<Rightarrow> nat" where
  "SboxCount x = length (filter (\<lambda>i. x AND push_bit i 0xf \<noteq> 0) [0, 4, 8, 12])"

definition Mask :: "u16 \<Rightarrow> u16" where
  "Mask x =
     fold (\<lambda>i msk. if x AND push_bit i 0xf \<noteq> 0 then msk OR push_bit i 0xf else msk)
       [0, 4, 8, 12] 0"

subsection \<open>Candidate sets\<close>

text \<open>
  \<^verbatim>\<open>genSubkeysSet\<close> iterates over the \<^verbatim>\<open>std::set\<close> while inserting into it. Insertion
  keeps iterators valid and the range-for visits the elements in ascending order, so an
  element inserted above the current one is visited later in the same loop. The iterator
  is \<open>Some x\<close> at element \<open>x\<close> and \<open>None\<close> at the end.
\<close>

definition set_begin :: "u16 set \<Rightarrow> u16 option" where
  "set_begin S = (if S = {} then None else Some (Min S))"

definition set_next :: "u16 set \<Rightarrow> u16 \<Rightarrow> u16 option" where
  "set_next S x = (let T = Set.filter (\<lambda>y. x < y) S in if T = {} then None else Some (Min T))"

function insert_or_loop :: "u16 \<Rightarrow> u16 set \<Rightarrow> u16 option \<Rightarrow> u16 set" where
  "insert_or_loop subkey S None = S"
| "insert_or_loop subkey S (Some x) =
     insert_or_loop subkey (insert (x OR subkey) S) (set_next (insert (x OR subkey) S) x)"
  by pat_completeness auto
termination
proof (relation "measure (\<lambda>(subkey, S, it). case it of None \<Rightarrow> 0 | Some x \<Rightarrow> 65536 - unat x)")
  show "wf (measure (\<lambda>(subkey, S, it). case it of None \<Rightarrow> 0 | Some x \<Rightarrow> 65536 - unat x))"
    by simp
next
  fix subkey :: u16 and S :: "u16 set" and x :: u16
  have bound: "unat y < 65536" for y :: u16
    using unsigned_less[of y, where 'a = nat] by simp
  show "((subkey, insert (x OR subkey) S, set_next (insert (x OR subkey) S) x), subkey, S, Some x)
      \<in> measure (\<lambda>(subkey, S, it). case it of None \<Rightarrow> 0 | Some x \<Rightarrow> 65536 - unat x)"
  proof (cases "set_next (insert (x OR subkey) S) x")
    case None
    then show ?thesis using bound[of x] by simp
  next
    case (Some y)
    then have "y \<in> Set.filter (\<lambda>y. x < y) (insert (x OR subkey) S)"
      unfolding set_next_def Let_def
      by (metis Min_in finite option.distinct(1) option.inject)
    then have "x < y" by simp
    then have "unat x < unat y" by (simp add: word_less_nat_alt)
    then show ?thesis using Some bound[of y] by simp
  qed
qed

definition genSubkeysSet :: "u16 \<Rightarrow> u16 set" where
  "genSubkeysSet msk =
     fold (\<lambda>i subkeys.
             if msk AND push_bit i 0xf = 0 then subkeys
             else fold (\<lambda>nibble subkeys.
                          let subkey = push_bit i (of_nat nibble);
                              subkeys = insert_or_loop subkey subkeys (set_begin subkeys)
                          in insert subkey subkeys)
                    [0..<16] subkeys)
       [0, 4, 8, 12] {}"

subsection \<open>Histogram maxima and best paths\<close>

text \<open>\<^verbatim>\<open>findMaxInHist\<close>: the entries whose count is the maximum, in key order.\<close>

definition findMaxInHist :: "hist \<Rightarrow> HistReturn list" where
  "findMaxInHist h =
     (let max_v = fold (\<lambda>(k, v) max_v. if v > max_v then v else max_v)
                    (map_entries h) 0
      in map (\<lambda>(k, v). (k, max_v))
           (filter (\<lambda>(k, v). v = max_v) (map_entries h)))"

definition findBestPaths :: "Path list \<Rightarrow> Path list" where
  "findBestPaths paths =
     (let best_prob =
            fold (\<lambda>path best. if probability path > best then probability path else best)
              paths 0
      in filter (\<lambda>path. probability path = best_prob) paths)"

subsection \<open>Differential path search\<close>

text \<open>
  \<^verbatim>\<open>findPathForRound\<close>. One step of the loop that chooses among the best \<open>dx\<close>: the
  candidate is OR-ed into the accumulator \<^verbatim>\<open>round_in_diff\<close> as it stands at that moment.
\<close>

definition choose_dx :: "nat \<Rightarrow> u16 \<Rightarrow> nat \<times> u16 \<Rightarrow> nat \<times> u16" where
  "choose_dx sbox_index dx = (\<lambda>(lowest_active_count, round_in_diff).
     let potential_round_in_diff = round_in_diff OR MakeSbox sbox_index dx;
         next_round_out_diff = itransp potential_round_in_diff;
         next_out_active_count = SboxCount next_round_out_diff
     in if next_out_active_count < lowest_active_count
        then (next_out_active_count, potential_round_in_diff)
        else (lowest_active_count, round_in_diff))"

definition path_sbox_step ::
  "u16 list list \<Rightarrow> u16 \<Rightarrow> nat \<Rightarrow> u16 \<times> rat \<Rightarrow> u16 \<times> rat" where
  "path_sbox_step diff_table round_out_diff sbox_index = (\<lambda>(round_in_diff, prob).
     let col = unat (SboxValue sbox_index round_out_diff);
         max_distrib = fold (\<lambda>dx max_distrib.
                               let d = diff_table ! dx ! col
                               in if d > max_distrib then d else max_distrib)
                         [1..<16] 0;
         prob = prob * (of_nat (unat max_distrib) / 16);
         new_dxs = filter (\<lambda>dx. diff_table ! dx ! col = max_distrib) [1..<16];
         (lowest_active_count, round_in_diff) =
           fold (choose_dx sbox_index) (map of_nat new_dxs) (5, round_in_diff)
     in (round_in_diff, prob))"

definition findPathForRound :: "KeyFinder \<Rightarrow> nat \<Rightarrow> u16 \<Rightarrow> rat \<Rightarrow> bool \<Rightarrow> u16 \<times> rat" where
  "findPathForRound kf round_num prev_round_in_diff prob forward =
     (let diff_table = (if forward then m_transposed_diff_table (m_spn kf)
                        else m_diff_table (m_spn kf));
          round_out_diff = itransp prev_round_in_diff
      in fold (path_sbox_step diff_table round_out_diff) (FindSbox round_out_diff)
           (0, prob))"

text \<open>
  \<^verbatim>\<open>genPath\<close>. The loop \<^verbatim>\<open>for (size_t r = from_round - 1; r >= 1; --r)\<close> runs over
  \<open>rev [1..<from_round]\<close>; the callers pass rounds 1 to 4.
\<close>

definition wanted_round_in_diffs :: "SboxState \<Rightarrow> u16 set" where
  "wanted_round_in_diffs wanted_sbox =
     fold (\<lambda>u W.
             let ok = (\<forall>m \<in> aux_masks wanted_sbox. u AND m \<noteq> 0)
             in if \<not> ok \<or> u AND NOT (mask_s wanted_sbox) \<noteq> 0 then W else insert u W)
       (sorted_list_of_set (genSubkeysSet (mask_s wanted_sbox))) {}"

definition genPath :: "KeyFinder \<Rightarrow> nat \<Rightarrow> SboxState \<Rightarrow> bool \<Rightarrow> Path list" where
  "genPath kf from_round wanted_sbox forward =
     map (\<lambda>u.
            let (prev_round_in_diff, prob) =
                  fold (\<lambda>r (prev_round_in_diff, prob).
                          findPathForRound kf r prev_round_in_diff prob forward)
                    (rev [1..<from_round]) (u, 1)
            in \<lparr>input_diff = prev_round_in_diff, output_diff = u, probability = prob\<rparr>)
       (sorted_list_of_set (wanted_round_in_diffs wanted_sbox))"

subsection \<open>Partial-key histograms\<close>

text \<open>
  \<^verbatim>\<open>genPCPair\<close>. Reading the codebook at an index beyond its size is undefined in the
  source; the statements below are about a complete codebook of 65536 entries.
\<close>

definition genPCPair :: "KeyFinder \<Rightarrow> u16 \<Rightarrow> bool \<Rightarrow> u16 list" where
  "genPCPair kf in_diff forward =
     (let main = (if forward then m_pc1_forward kf else m_pc1 kf)
      in map (\<lambda>i. main ! unat ((of_nat i :: u16) XOR in_diff)) [0..<length main])"

definition getProbableFirstSubkey :: "KeyFinder \<Rightarrow> Path \<Rightarrow> hist" where
  "getProbableFirstSubkey kf path =
     (let pc2 = genPCPair kf (input_diff path) True;
          output_mask = Mask (output_diff path);
          subkeys = genSubkeysSet output_mask
      in fold (\<lambda>i hist.
                 let ct1 = m_pc1_forward kf ! i;
                     ct2 = pc2 ! i
                 in if ct1 AND NOT output_mask \<noteq> ct2 AND NOT output_mask then hist
                    else fold (\<lambda>sk hist.
                                 let v1 = ct1 XOR sk;
                                     v2 = ct2 XOR sk;
                                     u1 = subst (m_spn kf) v1;
                                     u2 = subst (m_spn kf) v2
                                 in if (u1 XOR u2) AND output_mask = output_diff path
                                    then hist_add hist sk 1 else hist)
                           (sorted_list_of_set subkeys) hist)
           [0..<length (m_pc1_forward kf)] Mapping.empty)"

definition getProbableLastSubkey :: "KeyFinder \<Rightarrow> Path \<Rightarrow> hist" where
  "getProbableLastSubkey kf path =
     (let pc2 = genPCPair kf (input_diff path) False;
          output_mask = Mask (output_diff path);
          subkeys = genSubkeysSet output_mask
      in fold (\<lambda>i hist.
                 let ct1 = m_pc1 kf ! i;
                     ct2 = pc2 ! i
                 in if ct1 AND NOT output_mask \<noteq> ct2 AND NOT output_mask then hist
                    else fold (\<lambda>sk hist.
                                 let v1 = ct1 XOR sk;
                                     v2 = ct2 XOR sk;
                                     u1 = isubst (m_spn kf) v1;
                                     u2 = isubst (m_spn kf) v2
                                 in if (u1 XOR u2) AND output_mask = output_diff path
                                    then hist_add hist sk 1 else hist)
                           (sorted_list_of_set subkeys) hist)
           [0..<length (m_pc1 kf)] Mapping.empty)"

text \<open>
  \<^verbatim>\<open>getProbableMiddleSubkey\<close>. The body of one worker thread on the index range
  \<open>[start, end)\<close>, with its private histogram \<^verbatim>\<open>my_hist\<close>:
\<close>

definition middle_worker ::
  "KeyFinder \<Rightarrow> u16 list \<Rightarrow> u16 list \<Rightarrow> u16 set \<Rightarrow> Path \<Rightarrow> nat \<Rightarrow> bool \<Rightarrow> nat \<Rightarrow> nat \<Rightarrow> hist" where
  "middle_worker kf main_pc pc2 subkeys path round_num forward start end' =
     (let output_mask = Mask (output_diff path)
      in if forward then
           fold (\<lambda>i my_hist.
                   let ct1 = subst (m_spn kf) (main_pc ! i XOR m_subkeys_kf kf ! Nr);
                       ct2 = subst (m_spn kf) (pc2 ! i XOR m_subkeys_kf kf ! Nr)
                   in if ct1 AND NOT output_mask \<noteq> ct2 AND NOT output_mask then my_hist
                      else fold (\<lambda>sk my_hist.
                                   let u1 = subst (m_spn kf) (itransp (ct1 XOR sk));
                                       u2 = subst (m_spn kf) (itransp (ct2 XOR sk))
                                   in if (u1 XOR u2) AND output_mask = output_diff path
                                      then hist_add my_hist sk 1 else my_hist)
                             (sorted_list_of_set subkeys) my_hist)
             [start..<end'] Mapping.empty
         else
           fold (\<lambda>i my_hist.
                   let ct1 = isubst (m_spn kf) (main_pc ! i XOR m_subkeys_kf kf ! Nr);
                       ct2 = isubst (m_spn kf) (pc2 ! i XOR m_subkeys_kf kf ! Nr);
                       (ct1, ct2) =
                         fold (\<lambda>j (ct1, ct2).
                                 let ct1 = ct1 XOR m_subkeys_kf kf ! j;
                                     ct1 = isubst (m_spn kf) (itransp ct1);
                                     ct2 = ct2 XOR m_subkeys_kf kf ! j;
                                     ct2 = isubst (m_spn kf) (itransp ct2)
                                 in (ct1, ct2))
                           (rev [Suc round_num..<Nr]) (ct1, ct2)
                   in if ct1 AND NOT output_mask \<noteq> ct2 AND NOT output_mask then my_hist
                      else fold (\<lambda>sk my_hist.
                                   let u1 = isubst (m_spn kf) (itransp (ct1 XOR sk));
                                       u2 = isubst (m_spn kf) (itransp (ct2 XOR sk))
                                   in if (u1 XOR u2) AND output_mask = output_diff path
                                      then hist_add my_hist sk 1 else my_hist)
                             (sorted_list_of_set subkeys) my_hist)
             [start..<end'] Mapping.empty)"

text \<open>The merge that a worker performs under the mutex: \<^verbatim>\<open>hist[p.first] += p.second\<close>.\<close>

definition merge_hist :: "hist \<Rightarrow> hist \<Rightarrow> hist" where
  "merge_hist my_hist hist =
     fold (\<lambda>(k, v) hist. hist_add hist k v) (map_entries my_hist) hist"

text \<open>
  Worker \<open>i\<close> of \<open>n_threads\<close> works on \<open>[i * per_thread_work, (i + 1) * per_thread_work)\<close>
  with \<open>per_thread_work = main_pc.size() / n_threads\<close> (for no thread at all the division
  is undefined in the source). The workers run concurrently and each merges once, holding
  the mutex; \<open>sched\<close> is the order in which they take it.
\<close>

definition middle_merged ::
  "nat list \<Rightarrow> KeyFinder \<Rightarrow> nat \<Rightarrow> Path \<Rightarrow> bool \<Rightarrow> hist" where
  "middle_merged sched kf round_num path forward =
     (let pc2 = genPCPair kf (input_diff path) forward;
          output_mask = Mask (output_diff path);
          subkeys = genSubkeysSet output_mask;
          main_pc = (if forward then m_pc1_forward kf else m_pc1 kf);
          n_threads = m_num_of_threads kf;
          per_thread_work = length main_pc div n_threads
      in fold (\<lambda>i hist.
                 merge_hist
                   (middle_worker kf main_pc pc2 subkeys path round_num forward
                      (i * per_thread_work) (i * per_thread_work + per_thread_work))
                   hist)
           sched Mapping.empty)"

text \<open>The function itself, with the workers merging in the order of their creation.\<close>

definition getProbableMiddleSubkey :: "KeyFinder \<Rightarrow> nat \<Rightarrow> Path \<Rightarrow> bool \<Rightarrow> hist" where
  "getProbableMiddleSubkey kf round_num path forward =
     middle_merged [0..<m_num_of_threads kf] kf round_num path forward"

subsection \<open>Recovery of one round subkey\<close>

definition getProbableSubkey :: "KeyFinder \<Rightarrow> nat \<Rightarrow> SboxState \<Rightarrow> hist" where
  "getProbableSubkey kf round_num wanted_sbox =
     (let forward = (round_num = 0);
          path_round_num = (if round_num = 0 then Nr - round_num else round_num);
          paths = findBestPaths (genPath kf path_round_num wanted_sbox forward)
      in fold (\<lambda>path probable_keys.
                 let hist =
                       (if round_num = 4 then getProbableLastSubkey kf path
                        else if round_num = 3 \<or> round_num = 2 \<or> round_num = 1
                          then getProbableMiddleSubkey kf path_round_num path forward
                        else if round_num = 0 then getProbableFirstSubkey kf path
                        else Mapping.empty);
                     res = findMaxInHist hist
                 in fold (\<lambda>(k, v) probable_keys. hist_add probable_keys k v) res probable_keys)
           paths Mapping.empty)"

text \<open>
  \<^verbatim>\<open>getProbableSboxBits\<close>. \<^verbatim>\<open>std::map::at\<close> throws when the histogram of the single
  S-box is missing from the table.
\<close>

definition getProbableSboxBits ::
  "nat \<Rightarrow> (u16, hist) mapping \<Rightarrow> failure + HistReturn list" where
  "getProbableSboxBits sbox_index sbox_state_to_key_hist =
     (case Mapping.lookup sbox_state_to_key_hist (push_bit (3 - sbox_index) 1) of
        None \<Rightarrow> Inl OutOfRange
      | Some main \<Rightarrow>
          Inr (findMaxInHist
                 (fold (\<lambda>(state, h) main.
                          let s = SboxState_new state
                          in if active_count s < 2 \<or> \<not> bit (active s) (3 - sbox_index) then main
                             else fold (\<lambda>(k, v) main. hist_add main (k AND SboxMask sbox_index) v)
                                    (findMaxInHist h) main)
                    (map_entries sbox_state_to_key_hist) main)))"

text \<open>
  \<^verbatim>\<open>recoverRoundSubkey\<close>. \<^verbatim>\<open>std::map::insert\<close> keeps an existing entry. The four
  blocks for the four nibbles do the same thing: with at least one candidate the first one
  is OR-ed into the subkey, with none the process exits with \<^verbatim>\<open>0xdeadbabe\<close>.
\<close>

definition map_insert :: "'k \<Rightarrow> 'v \<Rightarrow> ('k, 'v) mapping \<Rightarrow> ('k, 'v) mapping" where
  "map_insert k v m = (if k \<in> Mapping.keys m then m else Mapping.update k v m)"

definition state_table :: "KeyFinder \<Rightarrow> nat \<Rightarrow> (u16, hist) mapping" where
  "state_table kf round_num =
     fold (\<lambda>state table.
             let s = SboxState_new (of_nat state);
                 c = active_count s
             in if c = 1 \<or> c = 2
                then map_insert (of_nat state) (getProbableSubkey kf round_num s) table
                else if c = 3
                then (if m_compute_3_sboxes kf
                      then map_insert (of_nat state) (getProbableSubkey kf round_num s) table
                      else table)
                else if c = 4
                then (if m_compute_4_sboxes kf
                      then map_insert (of_nat state) (getProbableSubkey kf round_num s) table
                      else table)
                else table)
       [1..<16] Mapping.empty"

definition guess_nibble :: "nat \<Rightarrow> (u16, hist) mapping \<Rightarrow> u16 \<Rightarrow> failure + u16" where
  "guess_nibble sbox_index table subkey =
     bindE (getProbableSboxBits sbox_index table)
       (\<lambda>bits. case bits of [] \<Rightarrow> Inl (Exit 0xdeadbabe) | (k, v) # _ \<Rightarrow> Inr (subkey OR k))"

definition recoverRoundSubkey :: "KeyFinder \<Rightarrow> nat \<Rightarrow> u16 run" where
  "recoverRoundSubkey kf round_num =
     ([Guessing round_num],
      let sbox_state_to_key_hist = state_table kf round_num
      in bindE (guess_nibble 0 sbox_state_to_key_hist 0)
           (\<lambda>subkey. bindE (guess_nibble 1 sbox_state_to_key_hist subkey)
              (\<lambda>subkey. bindE (guess_nibble 2 sbox_state_to_key_hist subkey)
                 (\<lambda>subkey. guess_nibble 3 sbox_state_to_key_hist subkey))))"

subsection \<open>The recovery functions and the find-all mode of main\<close>

definition recoverFirstSubkey :: "KeyFinder \<Rightarrow> (u16 \<times> KeyFinder) run" where
  "recoverFirstSubkey kf =
     (let kf = (if m_compute_3_sboxes kf \<or> m_compute_4_sboxes kf
                then kf\<lparr>m_compute_3_sboxes := False, m_compute_4_sboxes := False\<rparr> else kf)
      in bindR (recoverRoundSubkey kf 0)
           (\<lambda>subkey. returnR (subkey, kf\<lparr>m_compute_3_sboxes := True, m_compute_4_sboxes := True\<rparr>)))"

definition recoverLastSubkey :: "KeyFinder \<Rightarrow> (u16 \<times> KeyFinder) run" where
  "recoverLastSubkey kf =
     (let kf = (if m_compute_3_sboxes kf \<or> m_compute_4_sboxes kf
                then kf\<lparr>m_compute_3_sboxes := False, m_compute_4_sboxes := False\<rparr> else kf)
      in bindR (recoverRoundSubkey kf 4)
           (\<lambda>subkey. returnR (subkey, kf\<lparr>m_compute_3_sboxes := True, m_compute_4_sboxes := True\<rparr>)))"

text \<open>
  \<^verbatim>\<open>recoverSecondSubkey\<close>: the loop \<^verbatim>\<open>for (uint32_t x = 0; x <= 0xffff; ++x)\<close> with its
  early return; \<open>None\<close> when it runs to the end.
\<close>

function second_loop :: "KeyFinder \<Rightarrow> u16 list \<Rightarrow> nat \<Rightarrow> u16 option" where
  "second_loop kf subkeys x =
     (if x \<le> 0xffff
      then (let subkeys = subkeys[1 := of_nat x];
                ct = m_pc1 kf ! x
            in if unat (decryptWithKeys (m_spn kf) ct subkeys) = x then Some (of_nat x)
               else second_loop kf subkeys (x + 1))
      else None)"
  by pat_completeness auto
termination
  by (relation "measure (\<lambda>(kf, subkeys, x). 0x10000 - x)") auto

definition recoverSecondSubkey :: "KeyFinder \<Rightarrow> failure + u16" where
  "recoverSecondSubkey kf =
     (let key1 = 0
      in case second_loop kf (m_subkeys_kf kf) 0 of
           Some x \<Rightarrow> Inr x
         | None \<Rightarrow> if m_verbose kf \<noteq> 0 then Inl (Exit 0xbabebabe) else Inr key1)"

text \<open>
  The find-all branch of \<^verbatim>\<open>main\<close>. The loop
  \<^verbatim>\<open>for (size_t round = SPN::Nr - 1; round > 1; --round)\<close> is \<open>find_all_rounds\<close>.
\<close>

function find_all_rounds :: "KeyFinder \<Rightarrow> nat \<Rightarrow> KeyFinder run" where
  "find_all_rounds finder rnd =
     (if rnd > 1
      then bindR (recoverRoundSubkey finder rnd)
             (\<lambda>subkey. find_all_rounds
                (finder\<lparr>m_subkeys_kf := (m_subkeys_kf finder)[rnd := subkey]\<rparr>) (rnd - 1))
      else returnR finder)"
  by pat_completeness auto
termination
  by (relation "measure (\<lambda>(finder, rnd). rnd)") auto

definition find_all :: "KeyFinder \<Rightarrow> KeyFinder run" where
  "find_all finder =
     bindR (recoverLastSubkey finder) (\<lambda>(key4, finder).
       let finder = finder\<lparr>m_subkeys_kf := (m_subkeys_kf finder)[Nr := key4]\<rparr>
       in bindR (find_all_rounds finder (Nr - 1)) (\<lambda>finder.
            bindR (recoverFirstSubkey finder) (\<lambda>(key0, finder).
              let finder = finder\<lparr>m_subkeys_kf := (m_subkeys_kf finder)[0 := key0]\<rparr>
              in bindR ([], recoverSecondSubkey finder) (\<lambda>key1.
                   returnR (finder\<lparr>m_subkeys_kf := (m_subkeys_kf finder)[1 := key1]\<rparr>)))))"

text \<open>
  \<^verbatim>\<open>main\<close> with \<^verbatim>\<open>--find-all\<close>: both heuristics are switched on, the cipher object gets
  its S-boxes and difference tables, and the result is the subkey array that
  \<^verbatim>\<open>getKeyStr\<close> prints.
\<close>

definition main_find_all :: "u16 list \<Rightarrow> u16 list \<Rightarrow> nat \<Rightarrow> nat \<Rightarrow> u16 list run" where
  "main_find_all cts sbox num_of_threads verbose =
     (let finder = KeyFinder_new cts (keyfinder_spn sbox) num_of_threads True True;
          finder = setVerbose verbose finder
      in bindR (find_all finder) (\<lambda>finder. returnR (m_subkeys_kf finder)))"

text \<open>The codebook that Generator/main.cpp writes: the encryption of every plaintext.\<close>

definition codebook :: "SPN \<Rightarrow> u16 list" where
  "codebook spn = map (\<lambda>x. encrypt spn (of_nat x)) [0..<65536]"

section \<open>Bit-level facts about the permutation\<close>

lemma lt16_cases:
  assumes "(n::nat) < 16"
  shows "n \<in> {0, 1, 2, 3, 4, 5, 6, 7, 8, 9, 10, 11, 12, 13, 14, 15}"
  using assms by simp arith

lemma word16_eqI:
  fixes a b :: u16
  assumes "bit a 0 = bit b 0" "bit a 1 = bit b 1" "bit a 2 = bit b 2" "bit a 3 = bit b 3"
    "bit a 4 = bit b 4" "bit a 5 = bit b 5" "bit a 6 = bit b 6" "bit a 7 = bit b 7"
    "bit a 8 = bit b 8" "bit a 9 = bit b 9" "bit a 10 = bit b 10" "bit a 11 = bit b 11"
    "bit a 12 = bit b 12" "bit a 13 = bit b 13" "bit a 14 = bit b 14" "bit a 15 = bit b 15"
  shows "a = b"
proof (rule bit_word_eqI)
  fix n assume "n < LENGTH(16)"
  then have "n < 16" by simp
  then have "n \<in> {0, 1, 2, 3, 4, 5, 6, 7, 8, 9, 10, 11, 12, 13, 14, 15}"
    by (rule lt16_cases)
  then show "bit a n = bit b n"
    by (elim insertE emptyE; simp only: assms)
qed

lemma bit_transp_w:
  "bit (transp_w x) 0 = bit x 0"
  "bit (transp_w x) 1 = bit x 4"
  "bit (transp_w x) 2 = bit x 8"
  "bit (transp_w x) 3 = bit x 12"
  "bit (transp_w x) 4 = bit x 1"
  "bit (transp_w x) 5 = bit x 5"
  "bit (transp_w x) 6 = bit x 9"
  "bit (transp_w x) 7 = bit x 13"
  "bit (transp_w x) 8 = bit x 2"
  "bit (transp_w x) 9 = bit x 6"
  "bit (transp_w x) 10 = bit x 10"
  "bit (transp_w x) 11 = bit x 14"
  "bit (transp_w x) 12 = bit x 3"
  "bit (transp_w x) 13 = bit x 7"
  "bit (transp_w x) 14 = bit x 11"
  "bit (transp_w x) 15 = bit x 15"
  unfolding transp_w_def Let_def
  by (simp_all add: bit_simps)

lemma transp_w_invol: "transp_w (transp_w x) = x"
  by (rule word16_eqI) (simp_all only: bit_transp_w)

lemma transp_w_xor: "transp_w (a XOR b) = transp_w a XOR transp_w b"
  by (rule word16_eqI) (simp_all only: bit_transp_w bit_xor_iff)

section \<open>Nibbles, S-box inversion and the round trip\<close>

lemma upt_1_Nr: "[1..<Nr] = [1,2,3]" "[Suc 0..<Nr] = [1,2,3]"
  unfolding Nr_def by (simp_all add: upt_rec)

lemma bit_lt16:
  fixes a :: u16
  assumes "a < 16"
  shows "\<not> bit a 4" "\<not> bit a 5" "\<not> bit a 6" "\<not> bit a 7" "\<not> bit a 8" "\<not> bit a 9"
    "\<not> bit a 10" "\<not> bit a 11" "\<not> bit a 12" "\<not> bit a 13" "\<not> bit a 14" "\<not> bit a 15"
proof -
  have "a < 2 ^ 4" using assms by simp
  then have "a AND mask 4 = a" by (simp add: less_mask_eq)
  then have *: "bit a n = (bit a n \<and> n < 4)" for n
    by (metis bit_and_iff bit_mask_iff)
  show "\<not> bit a 4" "\<not> bit a 5" "\<not> bit a 6" "\<not> bit a 7" "\<not> bit a 8" "\<not> bit a 9"
    "\<not> bit a 10" "\<not> bit a 11" "\<not> bit a 12" "\<not> bit a 13" "\<not> bit a 14" "\<not> bit a 15"
    using *[of 4] *[of 5] *[of 6] *[of 7] *[of 8] *[of 9] *[of 10] *[of 11] *[of 12]
      *[of 13] *[of 14] *[of 15] by simp_all
qed

lemma nibble_lt16: "(x :: u16) AND 0xf < 16"
proof -
  have "x AND mask 4 < 2 ^ 4" by (rule and_mask_less_size) (simp add: word_size)
  then show ?thesis by (simp add: mask_eq_exp_minus_1)
qed

lemma unat_nibble_lt16: "unat ((x :: u16) AND 0xf) < 16"
  using nibble_lt16[of x] by (simp add: word_less_nat_alt)

lemma nibbles_join:
  fixes x :: u16
  shows "(((x AND 0xf) XOR push_bit 4 (drop_bit 4 x AND 0xf)) XOR push_bit 8 (drop_bit 8 x AND 0xf))
     XOR push_bit 12 (drop_bit 12 x AND 0xf) = x"
  by (rule word16_eqI) (simp_all add: bit_simps)

lemma nibbles_split:
  fixes a b c d :: u16
  assumes "a < 16" "b < 16" "c < 16" "d < 16"
  defines "w \<equiv> ((a XOR push_bit 4 b) XOR push_bit 8 c) XOR push_bit 12 d"
  shows "w AND 0xf = a" "drop_bit 4 w AND 0xf = b" "drop_bit 8 w AND 0xf = c"
    "drop_bit 12 w AND 0xf = d"
  unfolding w_def
  using bit_lt16[OF assms(1)] bit_lt16[OF assms(2)] bit_lt16[OF assms(3)] bit_lt16[OF assms(4)]
  by - (rule word16_eqI; simp add: bit_simps)+

lemma fold_SB_upt:
  defines "F \<equiv> \<lambda>sbox n. fold (\<lambda>i s. s\<lparr>m_SB := (m_SB s)[i := sbox ! i]\<rparr>) [0..<n]"
  shows "length (m_SB (F sbox n spn)) = length (m_SB spn) \<and>
     (\<forall>j < length (m_SB spn). m_SB (F sbox n spn) ! j = (if j < n then sbox ! j else m_SB spn ! j)) \<and>
     m_iSB (F sbox n spn) = m_iSB spn \<and> m_subkeys (F sbox n spn) = m_subkeys spn \<and>
     m_diff_table (F sbox n spn) = m_diff_table spn \<and>
     m_transposed_diff_table (F sbox n spn) = m_transposed_diff_table spn"
  unfolding F_def by (induction n) (auto simp: nth_list_update less_Suc_eq)

lemma fold_iSB_upt:
  defines "G \<equiv> \<lambda>n. fold (\<lambda>i s. s\<lparr>m_iSB := (m_iSB s)[unat (m_SB s ! i) := of_nat i]\<rparr>) [0..<n]"
  assumes "valid_sbox (m_SB spn)" "length (m_iSB spn) = 16" "n \<le> 16"
  shows "m_SB (G n spn) = m_SB spn \<and> length (m_iSB (G n spn)) = 16 \<and>
     (\<forall>j < n. m_iSB (G n spn) ! unat (m_SB spn ! j) = of_nat j) \<and>
     m_subkeys (G n spn) = m_subkeys spn \<and>
     m_diff_table (G n spn) = m_diff_table spn \<and>
     m_transposed_diff_table (G n spn) = m_transposed_diff_table spn"
  using assms(4)
proof (induction n)
  case 0
  then show ?case using assms(3) by (simp add: G_def)
next
  case (Suc n)
  then have IH: "m_SB (G n spn) = m_SB spn" "length (m_iSB (G n spn)) = 16"
    "\<forall>j < n. m_iSB (G n spn) ! unat (m_SB spn ! j) = of_nat j"
    "m_subkeys (G n spn) = m_subkeys spn"
    "m_diff_table (G n spn) = m_diff_table spn"
     "m_transposed_diff_table (G n spn) = m_transposed_diff_table spn"
    and n: "n < 16" by simp_all
  have step: "G (Suc n) spn = (G n spn)\<lparr>m_iSB := (m_iSB (G n spn))[unat (m_SB spn ! n) := of_nat n]\<rparr>"
    by (simp add: G_def IH(1)[unfolded G_def])
  have len: "length (m_SB spn) = 16" and dist: "distinct (m_SB spn)"
    and small: "\<And>i. i < 16 \<Longrightarrow> m_SB spn ! i < 16"
    using assms(2) by (auto simp: valid_sbox_def)
  have in_range: "unat (m_SB spn ! n) < 16"
    using small[OF n] by (simp add: word_less_nat_alt)
  have neq: "unat (m_SB spn ! j) \<noteq> unat (m_SB spn ! n)" if "j < n" for j
    using that n dist len by (simp add: nth_eq_iff_index_eq flip: word_unat_eq_iff)
  have "m_iSB (G (Suc n) spn) ! unat (m_SB spn ! j) = of_nat j" if "j < Suc n" for j
  proof (cases "j = n")
    case True
    then show ?thesis unfolding step using IH(2) in_range by simp
  next
    case False
    then have "j < n" using that by simp
    then show ?thesis unfolding step using IH(3) neq[of j] by simp
  qed
  then show ?case
    using IH by (simp add: step)
qed

lemma setSboxes_valid:
  assumes "valid_sbox sbox" "length (m_SB spn) = 16" "length (m_iSB spn) = 16"
  shows "m_SB (setSboxes sbox spn) = sbox"
    and "\<And>j. j < 16 \<Longrightarrow> m_iSB (setSboxes sbox spn) ! unat (sbox ! j) = of_nat j"
    and "m_subkeys (setSboxes sbox spn) = m_subkeys spn"
    and "m_diff_table (setSboxes sbox spn) = m_diff_table spn"
    and "m_transposed_diff_table (setSboxes sbox spn) = m_transposed_diff_table spn"
proof -
  define s1 where "s1 = fold (\<lambda>i s. s\<lparr>m_SB := (m_SB s)[i := sbox ! i]\<rparr>) [0..<16] spn"
  have len: "length sbox = 16" using assms(1) by (simp add: valid_sbox_def)
  have s1: "length (m_SB s1) = 16" "\<forall>j<16. m_SB s1 ! j = sbox ! j" "m_iSB s1 = m_iSB spn"
    "m_subkeys s1 = m_subkeys spn" "m_diff_table s1 = m_diff_table spn"
    "m_transposed_diff_table s1 = m_transposed_diff_table spn"
    using fold_SB_upt[of sbox 16 spn] assms(2) unfolding s1_def by auto
  have SB1: "m_SB s1 = sbox"
    by (rule nth_equalityI) (use s1 len in auto)
  have eq: "setSboxes sbox spn =
      fold (\<lambda>i s. s\<lparr>m_iSB := (m_iSB s)[unat (m_SB s ! i) := of_nat i]\<rparr>) [0..<16] s1"
    by (simp add: setSboxes_def s1_def)
  have v: "valid_sbox (m_SB s1)" using SB1 assms(1) by simp
  have l: "length (m_iSB s1) = 16" using s1 assms(3) by simp
  note G = fold_iSB_upt[OF v l order_refl, folded eq, unfolded SB1]
  show "m_SB (setSboxes sbox spn) = sbox" using G by simp
  show "\<And>j. j < 16 \<Longrightarrow> m_iSB (setSboxes sbox spn) ! unat (sbox ! j) = of_nat j" using G by simp
  show "m_subkeys (setSboxes sbox spn) = m_subkeys spn" using G s1 by simp
  show "m_diff_table (setSboxes sbox spn) = m_diff_table spn" using G s1 by simp
  show "m_transposed_diff_table (setSboxes sbox spn) = m_transposed_diff_table spn" using G s1 by simp
qed

lemma isubst_subst:
  assumes "sbox_inverse spn"
  shows "isubst spn (subst spn x) = x"
proof -
  define a where "a = m_SB spn ! unat (x AND 0xf)"
  define b where "b = m_SB spn ! unat (drop_bit 4 x AND 0xf)"
  define c where "c = m_SB spn ! unat (drop_bit 8 x AND 0xf)"
  define d where "d = m_SB spn ! unat (drop_bit 12 x AND 0xf)"
  have lt: "a < 16" "b < 16" "c < 16" "d < 16"
    using assms unat_nibble_lt16 unfolding sbox_inverse_def a_def b_def c_def d_def by blast+
  have inv: "m_iSB spn ! unat (m_SB spn ! unat (y AND 0xf)) = y AND 0xf" for y :: u16
    using assms unat_nibble_lt16[of y] unfolding sbox_inverse_def by simp
  have s: "subst spn x = ((a XOR push_bit 4 b) XOR push_bit 8 c) XOR push_bit 12 d"
    by (simp add: subst_def a_def b_def c_def d_def)
  show ?thesis
    unfolding isubst_def Let_def s nibbles_split[OF lt]
    unfolding a_def b_def c_def d_def inv
    by (rule nibbles_join)
qed

lemma xor_cancel_right: "(a XOR k) XOR k = (a :: u16)"
  by (simp add: xor.assoc)

lemma decrypt_encrypt_inverse: "sbox_inverse spn \<Longrightarrow> decrypt spn (encrypt spn pt) = pt"
  by (simp add: decrypt_def encrypt_def upt_1_Nr isubst_subst itransp_def transp_w_invol xor_cancel_right)

lemma sbox_inverse_setSboxes:
  assumes "valid_sbox sbox" "length (m_SB spn) = 16" "length (m_iSB spn) = 16"
  shows "sbox_inverse (setSboxes sbox spn)"
  unfolding sbox_inverse_def
  using setSboxes_valid(1,2)[OF assms] assms(1) by (simp add: valid_sbox_def)

lemma sbox_inverse_update: "sbox_inverse (spn\<lparr>m_subkeys := ks\<rparr>) = sbox_inverse spn"
  by (simp add: sbox_inverse_def)

section \<open>The cipher of scenario S1, evaluated\<close>

lemma generator_spn_S1:
  "generator_spn sbox_S1 key_S1 =
     \<lparr>m_SB = [14, 4, 13, 1, 2, 15, 11, 8, 3, 10, 6, 12, 5, 9, 0, 7],
      m_iSB = [14, 3, 4, 8, 1, 12, 10, 15, 7, 13, 9, 6, 11, 2, 0, 5],
      m_subkeys = [0x0011, 0x2233, 0x4455, 0x6677, 0x8899],
      m_diff_table = replicate 16 (replicate 16 0),
      m_transposed_diff_table = replicate 16 (replicate 16 0)\<rparr>"
  by code_simp

lemma encrypt_S1_0: "encrypt (generator_spn sbox_S1 key_S1) 0 = 0x2F54"
  unfolding generator_spn_S1 by code_simp

lemma encrypt_spec_S1_0: "encrypt_spec (generator_spn sbox_S1 key_S1) 0 = 0x9ABE"
  unfolding generator_spn_S1
  apply (simp only: encrypt_spec_def Let_def o_apply)
  apply (simp add: subst_def transp_w_def)
  done

section \<open>The difference distribution table\<close>

lemma inc_cell_nth:
  assumes "rect16 t" "a < 16" "b < 16" "i < 16" "j < 16"
  shows "inc_cell t a b ! i ! j = (if i = a \<and> j = b then t ! i ! j + 1 else t ! i ! j)"
  using assms by (auto simp: inc_cell_def rect16_def nth_list_update)

lemma inc_cell_rect: "rect16 t \<Longrightarrow> rect16 (inc_cell t a b)"
  by (cases "a < 16") (auto simp: inc_cell_def rect16_def nth_list_update)

lemma fold_inc_cell:
  assumes "rect16 t" "\<forall>(a, b) \<in> set ps. a < 16 \<and> b < 16" "i < 16" "j < 16"
  shows "rect16 (fold (\<lambda>(a, b) t. inc_cell t a b) ps t) \<and>
    fold (\<lambda>(a, b) t. inc_cell t a b) ps t ! i ! j = t ! i ! j + of_nat (count_list ps (i, j))"
  using assms
proof (induction ps arbitrary: t)
  case Nil
  then show ?case by simp
next
  case (Cons p ps)
  obtain a b where p: "p = (a, b)" by (cases p)
  have ab: "a < 16" "b < 16" using Cons.prems(2) p by auto
  have r: "rect16 (inc_cell t a b)" using Cons.prems(1) by (rule inc_cell_rect)
  have rest: "\<forall>(a, b) \<in> set ps. a < 16 \<and> b < 16" using Cons.prems(2) by simp
  from Cons.IH[OF r rest Cons.prems(3,4)]
  show ?case
    using inc_cell_nth[OF Cons.prems(1) ab Cons.prems(3,4)] p by auto
qed

lemma lt16_nibbles:
  fixes x :: u16
  assumes "x < 16"
  shows "x AND 0xf = x" "drop_bit 4 x AND 0xf = 0" "drop_bit 8 x AND 0xf = 0"
    "drop_bit 12 x AND 0xf = 0"
  using bit_lt16[OF assms]
  by - (rule word16_eqI; simp add: bit_simps)+

lemma xor_lt16:
  fixes x y :: u16
  assumes "x < 16" "y < 16"
  shows "x XOR y < 16"
proof -
  have "x AND mask 4 = x" "y AND mask 4 = y" using assms by (simp_all add: less_mask_eq)
  then have "(x XOR y) AND mask 4 = x XOR y"
    by (metis bit.conj_xor_distrib2)
  moreover have "(x XOR y) AND mask 4 < 2 ^ 4"
    by (rule and_mask_less_size) (simp add: word_size)
  ultimately show ?thesis by simp
qed

lemma of_nat_lt16: "n < 16 \<Longrightarrow> (of_nat n :: u16) < 16" "n < 16 \<Longrightarrow> unat (of_nat n :: u16) = n"
  by (simp_all add: word_less_nat_alt unat_of_nat)

lemma nat_xor_lt16:
  assumes "x < 16" "dx < (16::nat)"
  shows "x XOR dx < 16"
proof -
  have "take_bit 4 x = x" "take_bit 4 dx = dx"
    using assms by (simp_all add: take_bit_nat_eq_self_iff)
  then have "take_bit 4 (x XOR dx) = x XOR dx"
    by (simp add: take_bit_xor)
  moreover have "take_bit 4 (x XOR dx) < 2 ^ 4"
    by (rule take_bit_nat_less_exp)
  ultimately show ?thesis by simp
qed

lemma subst_small:
  assumes "n < 16"
  shows "subst spn (of_nat n) =
     ((m_SB spn ! n XOR push_bit 4 (m_SB spn ! 0)) XOR push_bit 8 (m_SB spn ! 0)) XOR
       push_bit 12 (m_SB spn ! 0)"
  using lt16_nibbles[OF of_nat_lt16(1)[OF assms]] of_nat_lt16(2)[OF assms]
  by (simp add: subst_def)

lemma xor_high_cancel: "(((a XOR h1) XOR h2) XOR h3) XOR (((b XOR h1) XOR h2) XOR h3) = a XOR (b :: u16)"
  by (simp add: ac_simps)

lemma diff_step_fields:
  assumes "x < 16" "dx < 16"
  shows "m_SB (diff_step (of_nat x) (of_nat dx) spn) = m_SB spn"
    and "m_diff_table (diff_step (of_nat x) (of_nat dx) spn) =
       inc_cell (m_diff_table spn) dx (dy_cell (m_SB spn) x dx)"
proof -
  have x': "(of_nat x :: u16) XOR of_nat dx = of_nat (x XOR dx)" by (simp add: of_nat_xor_eq)
  show "m_SB (diff_step (of_nat x) (of_nat dx) spn) = m_SB spn"
    by (simp add: diff_step_def Let_def)
  show "m_diff_table (diff_step (of_nat x) (of_nat dx) spn) =
       inc_cell (m_diff_table spn) dx (dy_cell (m_SB spn) x dx)"
    unfolding diff_step_def Let_def x'
    by (simp add: subst_small assms nat_xor_lt16 xor_high_cancel of_nat_lt16 dy_cell_def)
qed

lemma fold_diff_step_inner:
  assumes "x < 16" "\<forall>dx \<in> set ds. dx < 16"
  shows "m_SB (fold (\<lambda>dx. diff_step (of_nat x) (of_nat dx)) ds spn) = m_SB spn \<and>
     m_diff_table (fold (\<lambda>dx. diff_step (of_nat x) (of_nat dx)) ds spn) =
       fold (\<lambda>(a, b) t. inc_cell t a b) (cells (m_SB spn) [x] ds) (m_diff_table spn)"
  using assms(2)
proof (induction ds arbitrary: spn)
  case Nil
  then show ?case by (simp add: cells_def)
next
  case (Cons d ds)
  then have d: "d < 16" and ds: "\<forall>dx \<in> set ds. dx < 16" by simp_all
  show ?case
    using Cons.IH[OF ds, of "diff_step (of_nat x) (of_nat d) spn"]
    by (simp add: diff_step_fields[OF assms(1) d] cells_def)
qed

lemma cells_Cons: "cells sb (x # xs) ds = cells sb [x] ds @ cells sb xs ds"
  by (simp add: cells_def)

lemma fold_diff_step_outer:
  assumes "\<forall>x \<in> set xs. x < 16" "\<forall>dx \<in> set ds. dx < 16"
  shows "m_SB (fold (\<lambda>x. fold (\<lambda>dx. diff_step (of_nat x) (of_nat dx)) ds) xs spn) = m_SB spn \<and>
     m_diff_table (fold (\<lambda>x. fold (\<lambda>dx. diff_step (of_nat x) (of_nat dx)) ds) xs spn) =
       fold (\<lambda>(a, b) t. inc_cell t a b) (cells (m_SB spn) xs ds) (m_diff_table spn)"
  using assms(1)
proof (induction xs arbitrary: spn)
  case Nil
  then show ?case by (simp add: cells_def)
next
  case (Cons x xs)
  then have x: "x < 16" and xs: "\<forall>x \<in> set xs. x < 16" by simp_all
  note inner = fold_diff_step_inner[OF x assms(2), of spn]
  show ?case
    using Cons.IH[OF xs, of "fold (\<lambda>dx. diff_step (of_nat x) (of_nat dx)) ds spn"] inner
    by (simp add: cells_Cons[of _ x xs])
qed

lemma calculateDiffTable_cells:
  "m_diff_table (calculateDiffTable spn) =
     fold (\<lambda>(a, b) t. inc_cell t a b) (cells (m_SB spn) [0..<16] [0..<16]) (m_diff_table spn)"
  unfolding calculateDiffTable_def
  using fold_diff_step_outer[of "[0..<16]" "[0..<16]" spn] by simp

lemma count_cells_row:
  "count_list (cells sb [x] ds) (i, j) = (if dy_cell sb x i = j then count_list ds i else 0)"
  by (induction ds) (auto simp: cells_def)

lemma count_list_distinct: "distinct ds \<Longrightarrow> count_list ds i = (if i \<in> set ds then 1 else 0)"
  by (induction ds) auto

lemma count_cells_inner:
  assumes "distinct ds" "i \<in> set ds"
  shows "count_list (cells sb [x] ds) (i, j) = (if dy_cell sb x i = j then 1 else 0)"
  using assms by (simp add: count_cells_row count_list_distinct)

lemma count_cells:
  assumes "distinct ds" "i \<in> set ds"
  shows "count_list (cells sb xs ds) (i, j) = length (filter (\<lambda>x. dy_cell sb x i = j) xs)"
proof (induction xs)
  case Nil
  then show ?case by (simp add: cells_def)
next
  case (Cons x xs)
  then show ?case
    using count_cells_inner[OF assms, of sb x j] by (simp add: cells_Cons[of _ x xs])
qed

lemma cells_in_range:
  assumes "\<forall>n<16. sb ! n < 16"
  shows "\<forall>(a, b) \<in> set (cells sb [0..<16] [0..<16]). a < 16 \<and> b < 16"
proof -
  have "dy_cell sb x dx < 16" if "x < 16" "dx < 16" for x dx
    using xor_lt16[of "sb ! x" "sb ! (x XOR dx)"] assms that nat_xor_lt16[OF that]
    by (simp add: dy_cell_def word_less_nat_alt)
  then show ?thesis by (auto simp: cells_def)
qed

lemma diff_table_entry:
  assumes "rect16 (m_diff_table spn)" "\<forall>n<16. m_SB spn ! n < 16" "dx < 16" "dy < 16"
  shows "m_diff_table (calculateDiffTable spn) ! dx ! dy =
     m_diff_table spn ! dx ! dy + of_nat (card {x \<in> {0..<16}. dy_cell (m_SB spn) x dx = dy})"
proof -
  have "length (filter (\<lambda>x. dy_cell (m_SB spn) x dx = dy) [0..<16]) =
      card {x \<in> {0..<16}. dy_cell (m_SB spn) x dx = dy}"
    by (subst distinct_length_filter) (auto intro: arg_cong[where f = card])
  then show ?thesis
    unfolding calculateDiffTable_cells
    using fold_inc_cell[OF assms(1) cells_in_range[OF assms(2)] assms(3,4)] assms(3)
    by (simp add: count_cells)
qed

lemma rect16_zero: "rect16 (replicate 16 (replicate 16 0))"
  by (simp add: rect16_def)

lemma calculateDiffTable_rect:
  assumes "rect16 (m_diff_table spn)" "\<forall>n<16. m_SB spn ! n < 16"
  shows "rect16 (m_diff_table (calculateDiffTable spn))"
  unfolding calculateDiffTable_cells
  using fold_inc_cell[OF assms(1) cells_in_range[OF assms(2)], of 0 0] by simp

lemma sum_card_fibres:
  assumes "\<forall>x \<in> A. g x < (16::nat)" "finite A"
  shows "(\<Sum>dy<16. card {x \<in> A. g x = dy}) = card A"
proof -
  have "(\<Sum>dy\<in>{..<16}. \<Sum>x\<in>{x \<in> A. g x = dy}. 1) = (\<Sum>x\<in>A. (1::nat))"
    by (rule sum.group) (use assms in auto)
  then show ?thesis by simp
qed

section \<open>Claims about the cipher primitives\<close>

text \<open>
  Claim C9. For every 16-bit \<open>x\<close>, applying the bit permutation twice gives \<open>x\<close> back, and
  the inverse permutation \<open>itransp\<close> is the permutation itself.
\<close>

theorem C9_transp_involution:
  "transp_w (transp_w x) = x \<and> itransp x = transp_w x"
  by (simp add: transp_w_invol itransp_def)

text \<open>
  Claim C2. For every 16-bit plaintext and every valid key (five subkeys stored by the key
  schedule) with an S-box that is a permutation of \<open>0..15\<close>, decrypting the encryption of
  the plaintext gives the plaintext back.
\<close>

theorem C2_decrypt_encrypt:
  assumes "valid_sbox sbox" and "length K = Nr + 1"
  shows "decrypt (generator_spn sbox K) (encrypt (generator_spn sbox K) pt) = pt"
proof -
  have "sbox_inverse (generator_spn sbox K)"
    unfolding generator_spn_def
    by (rule sbox_inverse_setSboxes[OF assms(1)]) (simp_all add: SPN_new_def keysched_def)
  then show ?thesis
    by (rule decrypt_encrypt_inverse)
qed

theorem C2_decrypt_encrypt_witness:
  "valid_sbox sbox_S1 \<and> length key_S1 = Nr + 1 \<and>
   decrypt (generator_spn sbox_S1 key_S1) (encrypt (generator_spn sbox_S1 key_S1) 0) = 0"
proof -
  have v: "valid_sbox sbox_S1" by (simp add: valid_sbox_def sbox_S1_def)
  have l: "length key_S1 = Nr + 1" by (simp add: key_S1_def Nr_def)
  show ?thesis using v l C2_decrypt_encrypt[OF v l, of 0] by simp
qed

text \<open>
  Claim C3, as the specification states it: \<open>encrypt\<close> is the composition
  \<open>SB \<circ> xor K4 \<circ> (P \<circ> SB \<circ> xor K3) \<circ> (P \<circ> SB \<circ> xor K2) \<circ> (P \<circ> SB \<circ> xor K1) \<circ> xor K0\<close>.
  The code mixes each round key in after the substitution and permutation, not before, and
  the last subkey after the last substitution: on the S-box and key of scenario S1 the two
  disagree already at plaintext 0.
\<close>

theorem C3_spec_composition_counterexample:
  "encrypt (generator_spn sbox_S1 key_S1) 0 \<noteq> encrypt_spec (generator_spn sbox_S1 key_S1) 0"
  unfolding encrypt_S1_0 encrypt_spec_S1_0 by simp

text \<open>
  Claim C3, amended. For every plaintext and every subkey array, \<open>encrypt\<close> is
  \<open>xor K4 \<circ> SB \<circ> (xor K3 \<circ> P \<circ> SB) \<circ> (xor K2 \<circ> P \<circ> SB) \<circ> (xor K1 \<circ> P \<circ> SB) \<circ> xor K0\<close>:
  three rounds of substitution, permutation and key mixing after the initial whitening,
  and a final round of substitution and key mixing without permutation.
\<close>

theorem C3_encrypt_composition:
  "encrypt spn pt =
     (let K = (\<lambda>i x. x XOR m_subkeys spn ! i); SB = subst spn; P = transp_w
      in (K 4 \<circ> SB \<circ> (K 3 \<circ> P \<circ> SB) \<circ> (K 2 \<circ> P \<circ> SB) \<circ> (K 1 \<circ> P \<circ> SB) \<circ> K 0) pt)"
  by (simp add: encrypt_def upt_1_Nr) (simp add: Nr_def Let_def)

text \<open>
  Claim C8. After \<open>calculateDiffTable\<close> has run on an S-box that is a permutation of
  \<open>0..15\<close>, the entry of the difference table at \<open>dx\<close>, \<open>dy\<close> is the number of \<open>x\<close> in
  \<open>0..15\<close> with \<open>SB(x) xor SB(x xor dx) = dy\<close>; every row sums to 16 and row 0 is
  \<open>(16, 0, ..., 0)\<close>.
\<close>

theorem C8_diff_table:
  assumes "valid_sbox sbox"
  shows "(\<forall>dx<16. \<forall>dy<16. unat (m_diff_table (keyfinder_spn sbox) ! dx ! dy) =
            card {x \<in> {0..<16}. unat (sbox ! x XOR sbox ! (x XOR dx)) = dy}) \<and>
         (\<forall>dx<16. (\<Sum>dy<16. unat (m_diff_table (keyfinder_spn sbox) ! dx ! dy)) = 16) \<and>
         m_diff_table (keyfinder_spn sbox) ! 0 = 16 # replicate 15 0"
proof -
  define spn where "spn = setSboxes sbox SPN_new"
  define DT where "DT = m_diff_table (keyfinder_spn sbox)"
  have fields: "m_SB spn = sbox" "m_diff_table spn = replicate 16 (replicate 16 0)"
    unfolding spn_def
    using setSboxes_valid(1,4)[OF assms, of SPN_new] by (simp_all add: SPN_new_def)
  have small: "\<forall>n<16. m_SB spn ! n < 16"
    using assms fields(1) by (simp add: valid_sbox_def)
  have rect0: "rect16 (m_diff_table spn)"
    by (simp add: fields rect16_zero)
  have DT: "DT = m_diff_table (calculateDiffTable spn)"
    by (simp add: DT_def keyfinder_spn_def spn_def)
  have rect: "rect16 DT"
    unfolding DT by (rule calculateDiffTable_rect[OF rect0 small])
  have entry: "unat (DT ! dx ! dy) = card {x \<in> {0..<16}. dy_cell sbox x dx = dy}"
    if "dx < 16" "dy < 16" for dx dy
  proof -
    have "card {x \<in> {0..<16}. dy_cell sbox x dx = dy} \<le> card {0..<16::nat}"
      by (rule card_mono) auto
    then have le: "card {x \<in> {0..<16}. dy_cell sbox x dx = dy} \<le> 16" by simp
    have "DT ! dx ! dy = of_nat (card {x \<in> {0..<16}. dy_cell sbox x dx = dy})"
      unfolding DT using diff_table_entry[OF rect0 small that] that
      by (simp add: fields)
    then show ?thesis using le by (simp add: unat_of_nat)
  qed
  have range: "\<forall>x \<in> {0..<16}. dy_cell sbox x dx < 16" if "dx < 16" for dx
    using cells_in_range[OF small] that by (auto simp: cells_def fields)
  have rows: "(\<Sum>dy<16. unat (DT ! dx ! dy)) = 16" if "dx < 16" for dx
  proof -
    have "(\<Sum>dy<16. unat (DT ! dx ! dy)) = (\<Sum>dy<16. card {x \<in> {0..<16}. dy_cell sbox x dx = dy})"
      by (rule sum.cong) (use entry[OF that] in auto)
    also have "\<dots> = card {0..<16::nat}"
      by (rule sum_card_fibres) (use range[OF that] in auto)
    finally show ?thesis by simp
  qed
  have zero: "dy_cell sbox x 0 = 0" for x
    by (simp add: dy_cell_def)
  have row0: "DT ! 0 = 16 # replicate 15 0"
  proof (rule nth_equalityI)
    show "length (DT ! 0) = length (16 # replicate 15 (0::u16))"
      using rect by (simp add: rect16_def)
  next
    fix j assume "j < length (DT ! 0)"
    then have j: "j < 16" using rect by (simp add: rect16_def)
    have "unat (DT ! 0 ! j) = (if j = 0 then 16 else 0)"
      using entry[of 0 j] j by (auto simp: zero)
    then have "DT ! 0 ! j = (if j = 0 then 16 else 0)"
      by (simp add: word_unat_eq_iff)
    then show "DT ! 0 ! j = (16 # replicate 15 0) ! j"
      using j by (cases j) simp_all
  qed
  show ?thesis
  proof (intro conjI allI impI)
    fix dx dy :: nat assume "dx < 16" "dy < 16"
    then show "unat (m_diff_table (keyfinder_spn sbox) ! dx ! dy) =
        card {x \<in> {0..<16}. unat (sbox ! x XOR sbox ! (x XOR dx)) = dy}"
      using entry[of dx dy] by (simp only: DT_def dy_cell_def)
  next
    fix dx :: nat assume "dx < 16"
    then show "(\<Sum>dy<16. unat (m_diff_table (keyfinder_spn sbox) ! dx ! dy)) = 16"
      using rows[of dx] by (simp only: DT_def)
  next
    show "m_diff_table (keyfinder_spn sbox) ! 0 = 16 # replicate 15 0"
      using row0 by (simp only: DT_def)
  qed
qed

theorem C8_diff_table_witness:
  "valid_sbox sbox_S1 \<and>
   unat (m_diff_table (keyfinder_spn sbox_S1) ! 11 ! 2) =
     card {x \<in> {0..<16}. unat (sbox_S1 ! x XOR sbox_S1 ! (x XOR 11)) = 2} \<and>
   (\<Sum>dy<16. unat (m_diff_table (keyfinder_spn sbox_S1) ! 11 ! dy)) = 16 \<and>
   m_diff_table (keyfinder_spn sbox_S1) ! 0 = 16 # replicate 15 0"
proof -
  have v: "valid_sbox sbox_S1" by (simp add: valid_sbox_def sbox_S1_def)
  note C = C8_diff_table[OF v]
  have lt: "11 < (16::nat)" "2 < (16::nat)" by simp_all
  from C have entry: "unat (m_diff_table (keyfinder_spn sbox_S1) ! 11 ! 2) =
     card {x \<in> {0..<16}. unat (sbox_S1 ! x XOR sbox_S1 ! (x XOR 11)) = 2}"
    using lt by blast
  from C have row: "(\<Sum>dy<16. unat (m_diff_table (keyfinder_spn sbox_S1) ! 11 ! dy)) = 16"
    using lt(1) by blast
  from C have row0: "m_diff_table (keyfinder_spn sbox_S1) ! 0 = 16 # replicate 15 0"
    by blast
  show ?thesis using v entry row row0 by (intro conjI)
qed

end
